theory Spec2Isabelle
  imports Main "HOL-Library.Sublist"
begin

section \<open>Python strings\<close>

text \<open>
  A Python \<^verbatim>\<open>str\<close> is a sequence of Unicode code points. The normalisation of
  the talent-acquisition page inserts the box-drawing characters U+2500 and U+2550, which
  do not fit the 8-bit \<^typ>\<open>char\<close>, so a character is its code point and a string is a
  list of code points. \<open>lit\<close> turns an ASCII literal of the source into such a list.
\<close>

type_synonym pychar = nat
type_synonym pystr = "pychar list"

definition lit :: "string \<Rightarrow> pystr" where
  "lit s = map of_char s"

text \<open>
  \<^verbatim>\<open>str.isspace\<close> for one code point (the characters \<^verbatim>\<open>str.strip()\<close> removes):
  the C0 separators and controls 9-13 and 28-31, space, NEL, NBSP, and the Unicode space
  separators and line/paragraph separators.
\<close>

definition isspace :: "pychar \<Rightarrow> bool" where
  "isspace c \<longleftrightarrow>
     (9 \<le> c \<and> c \<le> 13) \<or> (28 \<le> c \<and> c \<le> 32) \<or> c = 133 \<or> c = 160 \<or> c = 5760 \<or>
     (8192 \<le> c \<and> c \<le> 8202) \<or> c = 8232 \<or> c = 8233 \<or> c = 8239 \<or> c = 8287 \<or> c = 12288"

text \<open>\<^verbatim>\<open>s.strip()\<close>: whitespace is removed from both ends.\<close>

definition str_strip :: "pystr \<Rightarrow> pystr" where
  "str_strip s = rev (dropWhile isspace (rev (dropWhile isspace s)))"

text \<open>
  \<^verbatim>\<open>s.replace(old, new)\<close>: the occurrences of \<open>old\<close> are found from the left and do
  not overlap. With an empty \<open>old\<close> Python puts \<open>new\<close> before every character and at the
  end.
\<close>

function str_replace :: "'a list \<Rightarrow> 'a list \<Rightarrow> 'a list \<Rightarrow> 'a list" where
  "str_replace old new [] = (if old = [] then new else [])"
| "str_replace old new (c # cs) =
     (if old = [] then new @ c # str_replace old new cs
      else if prefix old (c # cs) then new @ str_replace old new (drop (length old) (c # cs))
      else c # str_replace old new cs)"
  by pat_completeness auto
termination
  by (relation "measure (\<lambda>(old, new, s). length s)") auto

text \<open>\<^verbatim>\<open>s.split(sep)\<close> for a separator of one character, and \<^verbatim>\<open>sep.join(ls)\<close>.\<close>

fun str_split :: "'a \<Rightarrow> 'a list \<Rightarrow> 'a list list" where
  "str_split sep [] = [[]]"
| "str_split sep (c # cs) =
     (let r = str_split sep cs
      in if c = sep then [] # r else (c # hd r) # tl r)"

fun str_join :: "'a list \<Rightarrow> 'a list list \<Rightarrow> 'a list" where
  "str_join sep [] = []"
| "str_join sep [l] = l"
| "str_join sep (l # ls) = l @ sep @ str_join sep ls"

text \<open>\<^verbatim>\<open>old in s\<close> on strings is \<^const>\<open>sublist\<close>: a contiguous occurrence.\<close>

section \<open>Normalisation\<close>

text \<open>
  \<^verbatim>\<open>clean_text\<close> of the performance-management and employee-relations pages (the same
  function on every page that has it). The argument is a string or \<^verbatim>\<open>None\<close>;
  \<^verbatim>\<open>not text\<close> holds for \<^verbatim>\<open>None\<close> and for the empty string.
\<close>

definition remove_markdown :: "pystr \<Rightarrow> pystr" where
  "remove_markdown text =
     str_replace (lit ''#'') []
       (str_replace (lit ''##'') []
         (str_replace (lit ''###'') []
           (str_replace (lit ''*'') []
             (str_replace (lit ''**'') [] text))))"

definition clean_text :: "pystr option \<Rightarrow> pystr" where
  "clean_text text =
     (case text of
        None \<Rightarrow> []
      | Some t \<Rightarrow> if t = [] then [] else str_strip (remove_markdown t))"

text \<open>
  \<^verbatim>\<open>clean_markdown_text\<close> of the talent-acquisition page. The loop
  \<^verbatim>\<open>while '\n\n\n' in cleaned: cleaned = cleaned.replace('\n\n\n', '\n\n')\<close> is
  \<open>collapse_blank_lines\<close>.
\<close>

definition light_rule :: pystr where
  "light_rule = replicate 50 9472"

definition heavy_rule :: pystr where
  "heavy_rule = replicate 50 9552"

definition strip_lines :: "pystr \<Rightarrow> pystr" where
  "strip_lines s = str_join (lit ''\<newline>'') (map str_strip (str_split 10 s))"

function collapse_blank_lines :: "pystr \<Rightarrow> pystr" where
  "collapse_blank_lines s =
     (if sublist (lit ''\<newline>\<newline>\<newline>'') s
      then collapse_blank_lines (str_replace (lit ''\<newline>\<newline>\<newline>'') (lit ''\<newline>\<newline>'') s)
      else s)"
  by pat_completeness auto

definition clean_markdown_text :: "pystr option \<Rightarrow> pystr" where
  "clean_markdown_text text =
     (case text of
        None \<Rightarrow> []
      | Some t \<Rightarrow>
          if t = [] then []
          else str_strip (collapse_blank_lines (strip_lines
                 (str_replace (lit ''==='') heavy_rule
                   (str_replace (lit ''---'') light_rule (remove_markdown t))))))"

text \<open>Every line of a string is free of whitespace at both ends.\<close>

abbreviation lines_stripped :: "pystr \<Rightarrow> bool" where
  "lines_stripped s \<equiv> (\<forall>l\<in>set (str_split 10 s). str_strip l = l)"

section \<open>Configuration, session state and interface events\<close>

text \<open>
  \<^verbatim>\<open>os.getenv\<close> gives a string or \<^verbatim>\<open>None\<close>; the pages test the key with
  \<^verbatim>\<open>if KEY\<close> and \<^verbatim>\<open>if not KEY\<close>, which \<open>truthy\<close> is. The two provider clients are
  outside the repository: a client takes the request and either returns the response text
  or raises an exception (an instance of \<^verbatim>\<open>Exception\<close>, as the network,
  authentication, quota and response errors of both libraries are), of which the pages
  use \<^verbatim>\<open>str(e)\<close> only. Building the client and reading the text of the response
  happen inside the same \<^verbatim>\<open>try\<close> and are part of the client here. The Gemini client
  takes a list of content parts (one text part when it is called with a string); its
  generation configuration is the constant temperature 0.7 and a fixed output bound.
\<close>

datatype part = TextPart pystr | InlineData pystr "nat list"

datatype client_result = Returns pystr | Raises pystr

record env =
  GEMINI_API_KEY :: "pystr option"
  OPENAI_API_KEY :: "pystr option"
  gemini_client :: "part list \<Rightarrow> client_result"
  openai_client :: "pystr \<Rightarrow> client_result"

definition truthy :: "pystr option \<Rightarrow> bool" where
  "truthy v \<longleftrightarrow> v \<noteq> None \<and> v \<noteq> Some []"

text \<open>
  Of \<^verbatim>\<open>st.session_state\<close> the pages' logic reads and writes the entries
  \<^verbatim>\<open>model_choice\<close> and \<^verbatim>\<open>generated_content\<close>. What a page shows or sends is
  recorded as a list of events, in order.
\<close>

record session =
  model_choice :: "pystr option"
  generated_content :: "pystr \<rightharpoonup> pystr"

datatype event =
    StError pystr
  | StSuccess pystr
  | GeminiCall "part list"
  | OpenAICall pystr

fun is_call :: "event \<Rightarrow> bool" where
  "is_call (GeminiCall ps) = True"
| "is_call (OpenAICall p) = True"
| "is_call e = False"

definition network_calls :: "event list \<Rightarrow> event list" where
  "network_calls evs = filter is_call evs"

fun error_text :: "event \<Rightarrow> pystr option" where
  "error_text (StError m) = Some m"
| "error_text e = None"

definition errors_shown :: "event list \<Rightarrow> pystr list" where
  "errors_shown evs = List.map_filter error_text evs"

datatype py_error = KeyError | ValueError

section \<open>The sidebar\<close>

definition available_models :: "env \<Rightarrow> pystr list" where
  "available_models e =
     (if truthy (GEMINI_API_KEY e) then [lit ''Gemini (Google)''] else []) @
     (if truthy (OPENAI_API_KEY e) then [lit ''GPT-4.1 (OpenAI)''] else [])"

text \<open>
  \<^verbatim>\<open>xs.index(x)\<close>: the first position of \<open>x\<close>; Python raises \<^verbatim>\<open>ValueError\<close> when
  there is none, and \<^verbatim>\<open>KeyError\<close> on reading a session entry that is not there.
\<close>

fun list_index :: "'a list \<Rightarrow> 'a \<Rightarrow> nat option" where
  "list_index [] x = None"
| "list_index (y # ys) x = (if y = x then Some 0 else map_option Suc (list_index ys x))"

text \<open>
  Pages 01 to 06, in the branch where \<^verbatim>\<open>available_models\<close> is not empty: the stored
  choice is defaulted, then overwritten with what \<^verbatim>\<open>st.selectbox\<close> returns. The widget
  is Streamlit's and is a parameter: it is given the options and the index of the
  preselected one.
\<close>

definition default_model_choice :: "pystr list \<Rightarrow> session \<Rightarrow> session" where
  "default_model_choice am s =
     (case model_choice s of
        None \<Rightarrow> s\<lparr>model_choice := Some (hd am)\<rparr>
      | Some m \<Rightarrow> if m \<notin> set am then s\<lparr>model_choice := Some (hd am)\<rparr> else s)"

definition sidebar ::
  "(pystr list \<Rightarrow> nat \<Rightarrow> pystr) \<Rightarrow> env \<Rightarrow> session \<Rightarrow> py_error + (session \<times> event list)" where
  "sidebar selectbox e s =
     (let am = available_models e in
      if am = [] then
        Inr (s, [StError (10060 # lit '' No API key found. Please add GEMINI_API_KEY or OPENAI_API_KEY to your .env file.'')])
      else
        let s1 = default_model_choice am s in
        case model_choice s1 of
          None \<Rightarrow> Inl KeyError
        | Some m \<Rightarrow>
            (case list_index am m of
               None \<Rightarrow> Inl ValueError
             | Some i \<Rightarrow>
                 let s2 = s1\<lparr>model_choice := Some (selectbox am i)\<rparr> in
                 Inr (s2,
                   [StSuccess (if model_choice s2 = Some (lit ''Gemini (Google)'')
                      then 9989 # lit '' Gemini API Key loaded from .env file''
                      else 9989 # lit '' OpenAI API Key loaded from .env file'')])))"

text \<open>
  The sidebar of the compensation page (pages 07 to 09 have the same): it reports whether
  the key of the stored choice is there and writes nothing to the session.
\<close>

definition sidebar_status :: "env \<Rightarrow> session \<Rightarrow> session \<times> event list" where
  "sidebar_status e s =
     (s,
      [if model_choice s = Some (lit ''Gemini (Google)'') then
         (if truthy (GEMINI_API_KEY e) then StSuccess (9989 # lit '' Gemini API Key loaded'')
          else StError (10060 # lit '' GEMINI_API_KEY not found''))
       else
         (if truthy (OPENAI_API_KEY e) then StSuccess (9989 # lit '' OpenAI API Key loaded'')
          else StError (10060 # lit '' OPENAI_API_KEY not found''))])"

section \<open>Generation\<close>

text \<open>
  \<^verbatim>\<open>st.session_state.get('model_choice', available_models[0] if available_models else
  'Gemini (Google)')\<close>, the first line of every \<^verbatim>\<open>generate_content\<close>.
\<close>

definition selected_model :: "env \<Rightarrow> session \<Rightarrow> pystr" where
  "selected_model e s =
     (case model_choice s of
        Some m \<Rightarrow> m
      | None \<Rightarrow> (case available_models e of m # ms \<Rightarrow> m | [] \<Rightarrow> lit ''Gemini (Google)''))"

text \<open>
  \<^verbatim>\<open>generate_content(prompt, content_type)\<close> of the performance-management page and
  \<^verbatim>\<open>generate_ai_content\<close> of the talent-development page. The pages differ in the
  text of \<^verbatim>\<open>system_prompt\<close> only, which is the first argument here. The result is the
  returned value (\<^verbatim>\<open>None\<close> or the text) and the events of the call.
\<close>

definition generate_content ::
  "pystr \<Rightarrow> env \<Rightarrow> session \<Rightarrow> pystr \<Rightarrow> pystr \<Rightarrow> pystr option \<times> event list" where
  "generate_content system_prompt e s prompt content_type =
     (let choice = selected_model e s in
      if choice = lit ''Gemini (Google)'' then
        if \<not> truthy (GEMINI_API_KEY e) then
          (None, [StError (lit ''Please add your Gemini API key to the .env file'')])
        else
          let full_prompt = system_prompt @ lit ''\<newline>\<newline>'' @ prompt in
          case gemini_client e [TextPart full_prompt] of
            Returns text \<Rightarrow> (Some text, [GeminiCall [TextPart full_prompt]])
          | Raises msg \<Rightarrow>
              (None, [GeminiCall [TextPart full_prompt],
                      StError (lit ''Error generating content: '' @ msg)])
      else if choice = lit ''GPT-4.1 (OpenAI)'' then
        if \<not> truthy (OPENAI_API_KEY e) then
          (None, [StError (lit ''Please add your OpenAI API key to the .env file'')])
        else
          case openai_client e prompt of
            Returns text \<Rightarrow> (Some text, [OpenAICall prompt])
          | Raises msg \<Rightarrow>
              (None, [OpenAICall prompt, StError (lit ''Error generating content: '' @ msg)])
      else (None, [StError (lit ''No valid model selected or available.'')]))"

text \<open>
  \<^verbatim>\<open>generate_content(prompt, content_type, image_files=None)\<close> of the
  employee-relations page: the Gemini request is the parts \<^verbatim>\<open>[system_prompt, prompt]\<close>
  followed by one inline-data part for each uploaded image (its MIME type and its bytes,
  which travel base64-encoded).
\<close>

record uploaded_file =
  file_type :: pystr
  file_value :: "nat list"

definition image_parts :: "uploaded_file list option \<Rightarrow> part list" where
  "image_parts image_files =
     (case image_files of
        None \<Rightarrow> []
      | Some fs \<Rightarrow> map (\<lambda>f. InlineData (file_type f) (file_value f)) fs)"

definition generate_content_images ::
  "pystr \<Rightarrow> env \<Rightarrow> session \<Rightarrow> pystr \<Rightarrow> pystr \<Rightarrow> uploaded_file list option
     \<Rightarrow> pystr option \<times> event list" where
  "generate_content_images system_prompt e s prompt content_type image_files =
     (let choice = selected_model e s in
      if choice = lit ''Gemini (Google)'' then
        if \<not> truthy (GEMINI_API_KEY e) then
          (None, [StError (lit ''Please add your Gemini API key to the .env file'')])
        else
          let parts = [TextPart system_prompt, TextPart prompt] @ image_parts image_files in
          case gemini_client e parts of
            Returns text \<Rightarrow> (Some text, [GeminiCall parts])
          | Raises msg \<Rightarrow>
              (None, [GeminiCall parts, StError (lit ''Error generating content: '' @ msg)])
      else if choice = lit ''GPT-4.1 (OpenAI)'' then
        if \<not> truthy (OPENAI_API_KEY e) then
          (None, [StError (lit ''Please add your OpenAI API key to the .env file'')])
        else
          case openai_client e prompt of
            Returns text \<Rightarrow> (Some text, [OpenAICall prompt])
          | Raises msg \<Rightarrow>
              (None, [OpenAICall prompt, StError (lit ''Error generating content: '' @ msg)])
      else (None, [StError (lit ''No valid model selected or available.'')]))"

section \<open>The talent-development page: the Generate IDP button\<close>

definition talent_development_system_prompt :: pystr where
  "talent_development_system_prompt =
     lit ''You are an expert HR professional and consultant specializing in talent development, succession planning, and organizational development. Provide detailed, professional, and actionable HR content that follows industry best practices and compliance standards.''"

definition generate_ai_content ::
  "env \<Rightarrow> session \<Rightarrow> pystr \<Rightarrow> pystr \<Rightarrow> pystr option \<times> event list" where
  "generate_ai_content = generate_content talent_development_system_prompt"

record idp_form =
  employee_name :: pystr
  current_role :: pystr
  department :: pystr
  manager_name :: pystr
  career_goals :: pystr
  current_strengths :: pystr
  development_areas :: pystr
  timeline :: pystr
  job_level :: pystr
  industry :: pystr
  specific_skills :: pystr
  learning_preferences :: "pystr list"

text \<open>The f-string of the handler; every line of it is indented by sixteen spaces.\<close>

definition idp_prompt :: "idp_form \<Rightarrow> pystr" where
  "idp_prompt f =
     lit ''\<newline>                Create a comprehensive Individual Development Plan (IDP) for:\<newline>                \<newline>                Employee: '' @ employee_name f @
     lit ''\<newline>                Current Role: '' @ current_role f @
     lit ''\<newline>                Department: '' @ department f @
     lit ''\<newline>                Manager: '' @ manager_name f @
     lit ''\<newline>                Job Level: '' @ job_level f @
     lit ''\<newline>                Industry: '' @ industry f @
     lit ''\<newline>                Timeline: '' @ timeline f @
     lit ''\<newline>                \<newline>                Career Goals: '' @ career_goals f @
     lit ''\<newline>                Current Strengths: '' @ current_strengths f @
     lit ''\<newline>                Development Areas: '' @ development_areas f @
     lit ''\<newline>                Specific Skills: '' @ specific_skills f @
     lit ''\<newline>                Learning Preferences: '' @ str_join (lit '', '') (learning_preferences f) @
     lit ''\<newline>                \<newline>                Please create a detailed IDP that includes:\<newline>                1. Executive Summary\<newline>                2. Current State Assessment\<newline>                3. Development Objectives (SMART goals)\<newline>                4. Action Plan with specific activities\<newline>                5. Resources and Support Needed\<newline>                6. Success Metrics\<newline>                7. Review Timeline\<newline>                \<newline>                Make it professional, actionable, and tailored to the specific role and industry.\<newline>                ''"

text \<open>
  The handler of the button: \<^verbatim>\<open>if employee_name and current_role\<close> guards the call,
  and the content is stored under \<^verbatim>\<open>'idp'\<close> when it is a non-empty string.
\<close>

definition generate_idp_clicked :: "env \<Rightarrow> session \<Rightarrow> idp_form \<Rightarrow> session \<times> event list" where
  "generate_idp_clicked e s f =
     (if employee_name f \<noteq> [] \<and> current_role f \<noteq> [] then
        (case generate_ai_content e s (idp_prompt f) (lit ''IDP'') of
           (content, evs) \<Rightarrow>
             (case content of
                None \<Rightarrow> (s, evs)
              | Some text \<Rightarrow>
                  if text \<noteq> []
                  then (s\<lparr>generated_content := (generated_content s)(lit ''idp'' \<mapsto> text)\<rparr>, evs)
                  else (s, evs)))
      else (s, [StError (lit ''Please fill in at least Employee Name and Current Role'')]))"

section \<open>Stub clients and sample inputs\<close>

text \<open>
  A client that answers every request in the same way, a configuration built from two
  keys and such a client, a session, and a form in which only the two required fields are
  filled in.
\<close>

definition gemini_stub :: "client_result \<Rightarrow> part list \<Rightarrow> client_result" where
  "gemini_stub r ps = r"

definition openai_stub :: "client_result \<Rightarrow> pystr \<Rightarrow> client_result" where
  "openai_stub r p = r"

definition stub_env :: "pystr option \<Rightarrow> pystr option \<Rightarrow> client_result \<Rightarrow> env" where
  "stub_env gk ok r =
     \<lparr>GEMINI_API_KEY = gk, OPENAI_API_KEY = ok,
      gemini_client = gemini_stub r, openai_client = openai_stub r\<rparr>"

definition session_with :: "pystr option \<Rightarrow> session" where
  "session_with m = \<lparr>model_choice = m, generated_content = Map.empty\<rparr>"

definition form_with :: "pystr \<Rightarrow> pystr \<Rightarrow> idp_form" where
  "form_with name role =
     \<lparr>employee_name = name, current_role = role, department = [], manager_name = [],
      career_goals = [], current_strengths = [], development_areas = [],
      timeline = lit ''1 year'', job_level = lit ''Individual Contributor'', industry = [],
      specific_skills = [], learning_preferences = []\<rparr>"

text \<open>A selectbox on which the user changes nothing: it returns the preselected option.\<close>

definition selectbox_untouched :: "pystr list \<Rightarrow> nat \<Rightarrow> pystr" where
  "selectbox_untouched options i = options ! i"

section \<open>Facts about the string operations\<close>

lemma lit_simps [simp]:
  "lit [] = []"
  "lit (c # cs) = of_char c # lit cs"
  by (simp_all add: lit_def)

lemma str_replace_length_le:
  "length new \<le> length old \<Longrightarrow> length (str_replace old new s) \<le> length s"
proof (induction old new s rule: str_replace.induct)
  case (1 old new)
  then show ?case by auto
next
  case (2 old new c cs)
  show ?case
  proof (cases "old = []")
    case True
    with 2 show ?thesis by auto
  next
    case False
    show ?thesis
    proof (cases "prefix old (c # cs)")
      case True
      then have "length old \<le> length (c # cs)"
        by (rule prefix_length_le)
      moreover have "length (str_replace old new (drop (length old) (c # cs)))
                       \<le> length (drop (length old) (c # cs))"
        using 2 False True by simp
      ultimately show ?thesis
        using False True "2.prems" by simp
    next
      case np: False
      with 2 False show ?thesis by simp
    qed
  qed
qed

lemma str_replace_shorter:
  "sublist old s \<Longrightarrow> length new < length old \<Longrightarrow> length (str_replace old new s) < length s"
proof (induction old new s rule: str_replace.induct)
  case (1 old new)
  then show ?case by simp
next
  case (2 old new c cs)
  from "2.prems" have ne: "old \<noteq> []" by auto
  show ?case
  proof (cases "prefix old (c # cs)")
    case True
    then have "length old \<le> length (c # cs)"
      by (rule prefix_length_le)
    moreover have "length (str_replace old new (drop (length old) (c # cs)))
                     \<le> length (drop (length old) (c # cs))"
      using "2.prems" by (intro str_replace_length_le) simp
    ultimately show ?thesis
      using ne True "2.prems" by simp
  next
    case False
    with "2.prems" have "sublist old cs"
      by (simp add: sublist_Cons_right)
    with 2 ne False show ?thesis by simp
  qed
qed

termination collapse_blank_lines
  by (relation "measure length") (simp_all add: str_replace_shorter)

text \<open>
  The equation of the loop rewrites its own right-hand side, so it is applied by hand, one
  step at a time.
\<close>

declare collapse_blank_lines.simps [simp del]

lemma set_str_replace: "set (str_replace old new s) \<subseteq> set s \<union> set new"
proof (induction old new s rule: str_replace.induct)
  case (1 old new)
  then show ?case by auto
next
  case (2 old new c cs)
  have "set (drop (length old) (c # cs)) \<subseteq> set (c # cs)"
    by (rule set_drop_subset)
  with 2 show ?case by auto
qed

lemma str_replace_single: "str_replace [c] [] s = filter (\<lambda>x. x \<noteq> c) s"
  by (induction s) auto

lemma filter_str_replace_run:
  "old \<noteq> [] \<Longrightarrow> set old \<subseteq> {c} \<Longrightarrow>
   filter (\<lambda>x. x \<noteq> c) (str_replace old [] s) = filter (\<lambda>x. x \<noteq> c) s"
proof (induction old "[] :: 'a list" s rule: str_replace.induct)
  case (1 old)
  then show ?case by simp
next
  case (2 old x xs)
  show ?case
  proof (cases "prefix old (x # xs)")
    case True
    then obtain rest where rest: "x # xs = old @ rest"
      by (auto simp: prefix_def)
    then have d: "drop (length old) (x # xs) = rest" by simp
    have "filter (\<lambda>x. x \<noteq> c) old = []"
      using "2.prems"(2) by (auto simp: filter_empty_conv)
    then have "filter (\<lambda>x. x \<noteq> c) (x # xs) = filter (\<lambda>x. x \<noteq> c) rest"
      unfolding rest by simp
    moreover have "filter (\<lambda>x. x \<noteq> c) (str_replace old [] rest) = filter (\<lambda>x. x \<noteq> c) rest"
      using 2 True d by simp
    ultimately show ?thesis
      using True "2.prems"(1) d by simp
  next
    case False
    with 2 show ?thesis by simp
  qed
qed

lemma remove_markdown_filter:
  "remove_markdown t = filter (\<lambda>x. x \<noteq> 35) (filter (\<lambda>x. x \<noteq> 42) t)"
proof -
  have "remove_markdown t =
      filter (\<lambda>x. x \<noteq> 35) (str_replace [35, 35] [] (str_replace [35, 35, 35] []
        (filter (\<lambda>x. x \<noteq> 42) (str_replace [42, 42] [] t))))"
    by (simp add: remove_markdown_def str_replace_single)
  also have "\<dots> = filter (\<lambda>x. x \<noteq> 35) (filter (\<lambda>x. x \<noteq> 42) (str_replace [42, 42] [] t))"
    by (simp add: filter_str_replace_run)
  also have "\<dots> = filter (\<lambda>x. x \<noteq> 35) (filter (\<lambda>x. x \<noteq> 42) t)"
    by (simp add: filter_str_replace_run)
  finally show ?thesis .
qed

lemma remove_markdown_id: "35 \<notin> set t \<Longrightarrow> 42 \<notin> set t \<Longrightarrow> remove_markdown t = t"
  by (simp add: remove_markdown_filter filter_id_conv) auto

lemma set_remove_markdown: "set (remove_markdown t) = set t - {35, 42}"
  by (auto simp: remove_markdown_filter)

lemma set_str_strip: "set (str_strip s) \<subseteq> set s"
  unfolding str_strip_def by (auto dest!: set_dropWhileD)

lemma str_strip_fixed:
  "str_strip s = s \<longleftrightarrow> s = [] \<or> (\<not> isspace (hd s) \<and> \<not> isspace (last s))"
proof (cases "s = []")
  case True
  then show ?thesis by (simp add: str_strip_def)
next
  case False
  show ?thesis
  proof
    assume eq: "str_strip s = s"
    have a: "\<not> isspace (hd s)"
    proof
      assume "isspace (hd s)"
      then have "length (dropWhile isspace s) < length s"
        using False by (cases s) (auto simp: less_Suc_eq_le length_dropWhile_le)
      moreover have "length (str_strip s) \<le> length (dropWhile isspace s)"
        unfolding str_strip_def using length_dropWhile_le[of isspace "rev (dropWhile isspace s)"] by simp
      ultimately show False using eq by simp
    qed
    then have d: "dropWhile isspace s = s" using False by (cases s) auto
    have b: "\<not> isspace (last s)"
    proof
      assume "isspace (last s)"
      then have "isspace (hd (rev s))" using False by (simp add: hd_rev)
      then have "length (dropWhile isspace (rev s)) < length (rev s)"
        using False by (cases "rev s") (auto simp: less_Suc_eq_le length_dropWhile_le)
      then have "length (str_strip s) < length s"
        unfolding str_strip_def d by simp
      with eq show False by simp
    qed
    from a b show "s = [] \<or> (\<not> isspace (hd s) \<and> \<not> isspace (last s))" by simp
  next
    assume "s = [] \<or> (\<not> isspace (hd s) \<and> \<not> isspace (last s))"
    with False have a: "\<not> isspace (hd s)" and b: "\<not> isspace (last s)" by auto
    from a False have d: "dropWhile isspace s = s" by (cases s) auto
    from b False have "\<not> isspace (hd (rev s))" by (simp add: hd_rev)
    with False have "dropWhile isspace (rev s) = rev s" by (cases "rev s") auto
    with d show "str_strip s = s" by (simp add: str_strip_def)
  qed
qed

lemma str_strip_idem: "str_strip (str_strip s) = str_strip s"
proof -
  let ?u = "dropWhile isspace s"
  let ?v = "dropWhile isspace (rev ?u)"
  have v: "dropWhile isspace ?v = ?v" by (rule dropWhile_idem)
  show ?thesis
  proof (cases "?v = []")
    case True
    have "str_strip s = rev ?v" by (simp add: str_strip_def)
    with True have "str_strip s = []" by simp
    moreover have "str_strip [] = []" by (simp add: str_strip_def)
    ultimately show ?thesis by simp
  next
    case False
    have "\<not> isspace (hd ?v)" using False hd_dropWhile by blast
    then have l: "\<not> isspace (last (rev ?v))" using False by (simp add: last_rev)
    have "last ?v = last (rev ?u)"
      using False by (metis last_appendR takeWhile_dropWhile_id)
    moreover have une: "?u \<noteq> []"
    proof
      assume a: "?u = []"
      have "?v = []" unfolding a by simp
      with False show False by simp
    qed
    ultimately have "last ?v = hd ?u" by (simp add: last_rev)
    moreover have "\<not> isspace (hd ?u)" using une hd_dropWhile by blast
    ultimately have "\<not> isspace (hd (rev ?v))" using False by (simp add: hd_rev)
    with l have "str_strip (rev ?v) = rev ?v" by (simp add: str_strip_fixed)
    then show ?thesis by (simp add: str_strip_def)
  qed
qed

section \<open>Facts about replacing, splitting and joining\<close>

lemma str_replace_absent: "old \<noteq> [] \<Longrightarrow> \<not> sublist old s \<Longrightarrow> str_replace old new s = s"
proof (induction old new s rule: str_replace.induct)
  case (1 old new)
  then show ?case by simp
next
  case (2 old new c cs)
  from "2.prems" have "\<not> prefix old (c # cs)" "\<not> sublist old cs"
    by (auto simp: sublist_Cons_right)
  with 2 show ?case by simp
qed

lemma prefix_str_replace:
  "old \<noteq> [] \<Longrightarrow> new \<noteq> [] \<Longrightarrow> set p \<inter> set new = {} \<Longrightarrow>
   prefix p (str_replace old new t) \<Longrightarrow> prefix p t"
proof (induction old new t arbitrary: p rule: str_replace.induct)
  case (1 old new)
  then show ?case by simp
next
  case (2 old new c cs)
  show ?case
  proof (cases p)
    case Nil
    then show ?thesis by simp
  next
    case (Cons x p')
    show ?thesis
    proof (cases "prefix old (c # cs)")
      case True
      with "2.prems" Cons have "prefix (x # p') (new @ str_replace old new (drop (length old) (c # cs)))"
        by simp
      with "2.prems"(2) have "x = hd new" by (cases new) auto
      with "2.prems"(2,3) Cons show ?thesis by (cases new) auto
    next
      case False
      with "2.prems" Cons have x: "x = c" and p': "prefix p' (str_replace old new cs)"
        by auto
      from "2.prems"(3) Cons have "set p' \<inter> set new = {}" by auto
      with "2.IH"(3) "2.prems"(1,2) False p' have "prefix p' cs" by blast
      with x Cons show ?thesis by simp
    qed
  qed
qed

lemma sublist_append_disjoint:
  "p \<noteq> [] \<Longrightarrow> set p \<inter> set a = {} \<Longrightarrow> sublist p (a @ r) \<Longrightarrow> sublist p r"
proof (induction a)
  case Nil
  then show ?case by simp
next
  case (Cons x a)
  from Cons.prems(1,2) have "\<not> prefix p (x # a @ r)"
    by (cases p) auto
  with Cons show ?case by (auto simp: sublist_Cons_right)
qed

lemma sublist_str_replace:
  "old \<noteq> [] \<Longrightarrow> new \<noteq> [] \<Longrightarrow> set p \<inter> set new = {} \<Longrightarrow>
   sublist p (str_replace old new s) \<Longrightarrow> sublist p s"
proof (induction old new s rule: str_replace.induct)
  case (1 old new)
  then show ?case by simp
next
  case (2 old new c cs)
  show ?case
  proof (cases "p = []")
    case True
    then show ?thesis by simp
  next
    case pne: False
    show ?thesis
    proof (cases "prefix old (c # cs)")
      case True
      with "2.prems" have "sublist p (new @ str_replace old new (drop (length old) (c # cs)))"
        by simp
      with pne "2.prems"(3) have "sublist p (str_replace old new (drop (length old) (c # cs)))"
        by (rule sublist_append_disjoint)
      with 2 True have "sublist p (drop (length old) (c # cs))" by simp
      then show ?thesis
        by (rule sublist_order.order.trans[OF _ sublist_drop])
    next
      case False
      with "2.prems" have "sublist p (c # str_replace old new cs)" by simp
      then consider "prefix p (c # str_replace old new cs)" | "sublist p (str_replace old new cs)"
        by (auto simp: sublist_Cons_right)
      then show ?thesis
      proof cases
        case 1
        with False "2.prems"(1) have "prefix p (str_replace old new (c # cs))" by simp
        then have "prefix p (c # cs)" by (rule prefix_str_replace[OF "2.prems"(1,2,3)])
        then show ?thesis by (rule prefix_imp_sublist)
      next
        case 2
        with "2.IH"(3) "2.prems" False have "sublist p cs" by simp
        then show ?thesis by (simp add: sublist_Cons_right)
      qed
    qed
  qed
qed

lemma str_replace_removes:
  "old \<noteq> [] \<Longrightarrow> new \<noteq> [] \<Longrightarrow> set old \<inter> set new = {} \<Longrightarrow>
   \<not> sublist old (str_replace old new s)"
proof (induction old new s rule: str_replace.induct)
  case (1 old new)
  then show ?case by simp
next
  case (2 old new c cs)
  show ?case
  proof (cases "prefix old (c # cs)")
    case True
    show ?thesis
    proof
      assume "sublist old (str_replace old new (c # cs))"
      with True "2.prems" have "sublist old (new @ str_replace old new (drop (length old) (c # cs)))"
        by simp
      with "2.prems"(1,3) have "sublist old (str_replace old new (drop (length old) (c # cs)))"
        by (rule sublist_append_disjoint)
      with 2 True show False by simp
    qed
  next
    case False
    show ?thesis
    proof
      assume a: "sublist old (str_replace old new (c # cs))"
      with False "2.prems" have "sublist old (c # str_replace old new cs)" by simp
      then consider "prefix old (c # str_replace old new cs)" | "sublist old (str_replace old new cs)"
        by (auto simp: sublist_Cons_right)
      then show False
      proof cases
        case 1
        with False "2.prems"(1) have "prefix old (str_replace old new (c # cs))" by simp
        then have "prefix old (c # cs)" by (rule prefix_str_replace[OF "2.prems"(1,2,3)])
        with False show False by simp
      next
        case 2
        with "2.IH"(3) "2.prems" False show False by simp
      qed
    qed
  qed
qed

lemma collapse_blank_lines_step:
  "sublist (lit ''\<newline>\<newline>\<newline>'') s \<Longrightarrow>
   collapse_blank_lines s =
     collapse_blank_lines (str_replace (lit ''\<newline>\<newline>\<newline>'') (lit ''\<newline>\<newline>'') s)"
  by (subst collapse_blank_lines.simps) (simp only: if_True)

lemma collapse_blank_lines_fixed:
  "\<not> sublist (lit ''\<newline>\<newline>\<newline>'') s \<Longrightarrow> collapse_blank_lines s = s"
  by (subst collapse_blank_lines.simps) (simp only: if_False)

lemma collapse_blank_lines_no_triple:
  "\<not> sublist (lit ''\<newline>\<newline>\<newline>'') (collapse_blank_lines s)"
proof (induction s rule: collapse_blank_lines.induct)
  case (1 s)
  show ?case
  proof (cases "sublist (lit ''\<newline>\<newline>\<newline>'') s")
    case True
    show ?thesis
      unfolding collapse_blank_lines_step[OF True] by (rule 1[OF True])
  next
    case False
    show ?thesis
      unfolding collapse_blank_lines_fixed[OF False] by (rule False)
  qed
qed

lemma sublist_collapse_blank_lines:
  "10 \<notin> set p \<Longrightarrow> sublist p (collapse_blank_lines s) \<Longrightarrow> sublist p s"
proof (induction s rule: collapse_blank_lines.induct)
  case (1 s)
  show ?case
  proof (cases "sublist (lit ''\<newline>\<newline>\<newline>'') s")
    case True
    from "1.prems"(2) have "sublist p (collapse_blank_lines
        (str_replace (lit ''\<newline>\<newline>\<newline>'') (lit ''\<newline>\<newline>'') s))"
      unfolding collapse_blank_lines_step[OF True] .
    then have a: "sublist p (str_replace (lit ''\<newline>\<newline>\<newline>'') (lit ''\<newline>\<newline>'') s)"
      by (rule "1.IH"[OF True "1.prems"(1)])
    have b: "set p \<inter> set (lit ''\<newline>\<newline>'') = {}"
      using "1.prems"(1) by simp
    have c: "lit ''\<newline>\<newline>\<newline>'' \<noteq> []" "lit ''\<newline>\<newline>'' \<noteq> []"
      by simp_all
    show ?thesis
      by (rule sublist_str_replace[OF c b a])
  next
    case False
    from "1.prems"(2) show ?thesis
      unfolding collapse_blank_lines_fixed[OF False] .
  qed
qed

lemma set_collapse_blank_lines: "set (collapse_blank_lines s) \<subseteq> set s"
proof (induction s rule: collapse_blank_lines.induct)
  case (1 s)
  show ?case
  proof (cases "sublist (lit ''\<newline>\<newline>\<newline>'') s")
    case True
    from set_mono_sublist[OF True] have "10 \<in> set s" by simp
    moreover have "set (str_replace (lit ''\<newline>\<newline>\<newline>'') (lit ''\<newline>\<newline>'') s)
        \<subseteq> set s \<union> set (lit ''\<newline>\<newline>'')"
      by (rule set_str_replace)
    ultimately have "set (str_replace (lit ''\<newline>\<newline>\<newline>'') (lit ''\<newline>\<newline>'') s) \<subseteq> set s"
      by auto
    with "1.IH"[OF True] show ?thesis
      unfolding collapse_blank_lines_step[OF True] by (rule subset_trans)
  next
    case False
    show ?thesis
      unfolding collapse_blank_lines_fixed[OF False] by (rule subset_refl)
  qed
qed

lemma str_split_nonempty [simp]: "str_split n s \<noteq> []"
  by (induction s) (auto simp: Let_def)

lemma str_split_Cons_sep [simp]: "str_split n (n # s) = [] # str_split n s"
  by (simp add: Let_def)

lemma str_split_Cons_other:
  "c \<noteq> n \<Longrightarrow> str_split n (c # s) = (c # hd (str_split n s)) # tl (str_split n s)"
  by (simp add: Let_def)

lemma str_join_Cons: "ls \<noteq> [] \<Longrightarrow> str_join sep (l # ls) = l @ sep @ str_join sep ls"
  by (cases ls) simp_all

lemma str_join_split: "str_join [n] (str_split n s) = s"
proof (induction s)
  case Nil
  then show ?case by simp
next
  case (Cons c s)
  obtain h t where ht: "str_split n s = h # t"
    by (cases "str_split n s") simp_all
  show ?case
  proof (cases "c = n")
    case True
    with Cons show ?thesis by (simp add: str_join_Cons)
  next
    case False
    with Cons ht show ?thesis
      by (cases t) (simp_all add: Let_def)
  qed
qed

lemma str_split_no_sep: "l \<in> set (str_split n s) \<Longrightarrow> n \<notin> set l"
proof (induction s arbitrary: l)
  case Nil
  then show ?case by simp
next
  case (Cons c s)
  obtain h t where ht: "str_split n s = h # t"
    by (cases "str_split n s") simp_all
  from Cons ht show ?case
    by (cases "c = n") (auto simp: Let_def)
qed

lemma str_split_append_sep: "str_split n (xs @ n # ys) = str_split n xs @ str_split n ys"
proof (induction xs)
  case Nil
  then show ?case by simp
next
  case (Cons c xs)
  obtain h t where ht: "str_split n xs = h # t"
    by (cases "str_split n xs") simp_all
  with Cons show ?case
    by (cases "c = n") (simp_all add: Let_def)
qed

lemma str_split_line: "n \<notin> set l \<Longrightarrow> str_split n l = [l]"
  by (induction l) (auto simp: Let_def)

lemma str_split_join:
  "ls \<noteq> [] \<Longrightarrow> \<forall>l\<in>set ls. n \<notin> set l \<Longrightarrow> str_split n (str_join [n] ls) = ls"
proof (induction ls)
  case Nil
  then show ?case by simp
next
  case (Cons l ls)
  show ?case
  proof (cases "ls = []")
    case True
    with Cons.prems show ?thesis by (simp add: str_split_line)
  next
    case False
    with Cons show ?thesis
      by (simp add: str_join_Cons str_split_append_sep str_split_line)
  qed
qed

lemma str_split_line_sublist: "l \<in> set (str_split n s) \<Longrightarrow> sublist l s"
proof (induction s arbitrary: l)
  case Nil
  then show ?case by simp
next
  case (Cons c s)
  obtain h t where ht: "str_split n s = h # t"
    by (cases "str_split n s") simp_all
  show ?case
  proof (cases "c = n")
    case True
    with Cons.prems have "l = [] \<or> l \<in> set (str_split n s)" by simp
    with Cons.IH show ?thesis by (auto simp: sublist_Cons_right)
  next
    case False
    with Cons.prems ht have "l = c # h \<or> l \<in> set t" by (simp add: Let_def)
    then show ?thesis
    proof
      assume l: "l = c # h"
      have "prefix h s"
      proof -
        have "s = str_join [n] (h # t)" using str_join_split[of n s] ht by simp
        then show ?thesis by (cases t) simp_all
      qed
      with l show ?thesis by (simp add: sublist_Cons_right)
    next
      assume "l \<in> set t"
      with ht Cons.IH have "sublist l s" by simp
      then show ?thesis by (simp add: sublist_Cons_right)
    qed
  qed
qed

lemma prefix_before_sep: "n \<notin> set p \<Longrightarrow> prefix p (a @ n # b) \<Longrightarrow> prefix p a"
  by (auto simp: prefix_append prefix_Cons)

lemma sublist_around_sep:
  "n \<notin> set p \<Longrightarrow> sublist p (xs @ n # ys) \<Longrightarrow> sublist p xs \<or> sublist p ys"
proof (induction xs)
  case Nil
  then show ?case by (auto simp: sublist_Cons_right prefix_Cons)
next
  case (Cons x xs)
  from Cons.prems(2) consider "prefix p ((x # xs) @ n # ys)" | "sublist p (xs @ n # ys)"
    by (auto simp: sublist_Cons_right)
  then show ?case
  proof cases
    case 1
    with Cons.prems(1) have "prefix p (x # xs)" by (rule prefix_before_sep)
    then show ?thesis by blast
  next
    case 2
    with Cons show ?thesis by (auto simp: sublist_Cons_right)
  qed
qed

lemma sublist_str_join:
  "p \<noteq> [] \<Longrightarrow> n \<notin> set p \<Longrightarrow> sublist p (str_join [n] ls) \<Longrightarrow> \<exists>l\<in>set ls. sublist p l"
proof (induction ls)
  case Nil
  then show ?case by simp
next
  case (Cons l ls)
  show ?case
  proof (cases "ls = []")
    case True
    with Cons.prems show ?thesis by simp
  next
    case False
    with Cons.prems(3) have "sublist p (l @ n # str_join [n] ls)"
      by (simp add: str_join_Cons)
    with Cons.prems(2) have "sublist p l \<or> sublist p (str_join [n] ls)"
      by (rule sublist_around_sep)
    with Cons show ?thesis by auto
  qed
qed

lemma strip_lines_fixed: "lines_stripped s \<Longrightarrow> strip_lines s = s"
proof -
  assume "lines_stripped s"
  then have "map str_strip (str_split 10 s) = str_split 10 s"
    by (simp add: map_idI)
  then show ?thesis
    by (simp add: strip_lines_def str_join_split)
qed

lemma lines_stripped_strip_lines: "lines_stripped (strip_lines c)"
proof -
  let ?ls = "map str_strip (str_split 10 c)"
  have "\<forall>l\<in>set ?ls. 10 \<notin> set l"
    using str_split_no_sep[of _ 10 c] set_str_strip by fastforce
  moreover have "?ls \<noteq> []" by simp
  ultimately have "str_split 10 (str_join [10] ?ls) = ?ls"
    by (intro str_split_join)
  then have "str_split 10 (strip_lines c) = ?ls"
    by (simp add: strip_lines_def)
  then show ?thesis
    by (auto simp: str_strip_idem)
qed

lemma str_split_set: "set (str_split n s) = insert (hd (str_split n s)) (set (tl (str_split n s)))"
  by (cases "str_split n s") simp_all

lemma str_split_collapse_step:
  "hd (str_split n (str_replace [n, n, n] [n, n] s)) = hd (str_split n s) \<and>
   set (tl (str_split n (str_replace [n, n, n] [n, n] s))) \<subseteq> set (tl (str_split n s))"
proof (induction s rule: length_induct)
  case (1 s)
  show ?case
  proof (cases s)
    case Nil
    then show ?thesis by simp
  next
    case (Cons c cs)
    show ?thesis
    proof (cases "prefix [n, n, n] s")
      case True
      then obtain rest where rest: "s = n # n # n # rest"
        by (auto simp: prefix_def)
      have "length rest < length s" using rest by simp
      with 1 have ih: "hd (str_split n (str_replace [n, n, n] [n, n] rest)) = hd (str_split n rest)"
        "set (tl (str_split n (str_replace [n, n, n] [n, n] rest))) \<subseteq> set (tl (str_split n rest))"
        by blast+
      have "set (str_split n (str_replace [n, n, n] [n, n] rest)) \<subseteq> set (str_split n rest)"
        using ih str_split_set[of n rest] str_split_set[of n "str_replace [n, n, n] [n, n] rest"]
        by auto
      then show ?thesis unfolding rest by auto
    next
      case False
      have "length cs < length s" using Cons by simp
      with 1 have ih: "hd (str_split n (str_replace [n, n, n] [n, n] cs)) = hd (str_split n cs)"
        "set (tl (str_split n (str_replace [n, n, n] [n, n] cs))) \<subseteq> set (tl (str_split n cs))"
        by blast+
      have np: "\<not> prefix [n, n, n] (c # cs)"
        using False unfolding Cons .
      have r: "str_replace [n, n, n] [n, n] (c # cs) = c # str_replace [n, n, n] [n, n] cs"
        using np by (simp only: str_replace.simps list.distinct if_False)
      show ?thesis
      proof (cases "c = n")
        case True
        have "set (str_split n (str_replace [n, n, n] [n, n] cs)) \<subseteq> set (str_split n cs)"
          using ih str_split_set[of n cs] str_split_set[of n "str_replace [n, n, n] [n, n] cs"]
          by auto
        moreover have "str_split n (c # str_replace [n, n, n] [n, n] cs) =
            [] # str_split n (str_replace [n, n, n] [n, n] cs)"
          "str_split n (c # cs) = [] # str_split n cs"
          using True by simp_all
        ultimately show ?thesis unfolding Cons r by (simp only: list.sel)
      next
        case cn: False
        then have "str_split n (c # str_replace [n, n, n] [n, n] cs) =
            (c # hd (str_split n (str_replace [n, n, n] [n, n] cs))) #
              tl (str_split n (str_replace [n, n, n] [n, n] cs))"
          "str_split n (c # cs) = (c # hd (str_split n cs)) # tl (str_split n cs)"
          by (simp_all add: Let_def)
        with ih show ?thesis unfolding Cons r by (simp only: list.sel simp_thms)
      qed
    qed
  qed
qed

lemma str_split_collapse_subset:
  "set (str_split n (str_replace [n, n, n] [n, n] s)) \<subseteq> set (str_split n s)"
  using str_split_collapse_step[of n s] str_split_set[of n s]
    str_split_set[of n "str_replace [n, n, n] [n, n] s"]
  by auto

lemma lines_stripped_collapse:
  "lines_stripped s \<Longrightarrow> lines_stripped (collapse_blank_lines s)"
proof (induction s rule: collapse_blank_lines.induct)
  case (1 s)
  show ?case
  proof (cases "sublist (lit ''\<newline>\<newline>\<newline>'') s")
    case True
    have "set (str_split 10 (str_replace (lit ''\<newline>\<newline>\<newline>'') (lit ''\<newline>\<newline>'') s))
        \<subseteq> set (str_split 10 s)"
      using str_split_collapse_subset[of 10 s] by simp
    with "1.prems" have "lines_stripped (str_replace (lit ''\<newline>\<newline>\<newline>'') (lit ''\<newline>\<newline>'') s)"
      by blast
    then show ?thesis
      unfolding collapse_blank_lines_step[OF True] by (rule "1.IH"[OF True])
  next
    case False
    from "1.prems" show ?thesis
      unfolding collapse_blank_lines_fixed[OF False] .
  qed
qed

lemma isspace_newline [simp]: "isspace 10"
  by (simp add: isspace_def)

lemma lines_stripped_dropWhile:
  "lines_stripped s \<Longrightarrow> lines_stripped (dropWhile isspace s)"
proof (induction s)
  case Nil
  then show ?case by simp
next
  case (Cons c s)
  show ?case
  proof (cases "isspace c")
    case False
    with Cons.prems show ?thesis by simp
  next
    case True
    show ?thesis
    proof (cases "c = 10")
      case c: True
      with Cons.prems have "lines_stripped s" by simp
      with Cons.IH True show ?thesis by simp
    next
      case c: False
      with Cons.prems have "str_strip (c # hd (str_split 10 s)) = c # hd (str_split 10 s)"
        by (simp add: Let_def)
      with True show ?thesis by (simp add: str_strip_fixed)
    qed
  qed
qed

lemma str_split_snoc_other:
  "c \<noteq> n \<Longrightarrow> str_split n (s @ [c]) = butlast (str_split n s) @ [last (str_split n s) @ [c]]"
proof (induction s)
  case Nil
  then show ?case by (simp add: Let_def)
next
  case (Cons x s)
  obtain h t where ht: "str_split n s = h # t"
    by (cases "str_split n s") simp_all
  obtain h' t' where ht': "str_split n (s @ [c]) = h' # t'"
    by (cases "str_split n (s @ [c])") simp_all
  from Cons ht ht' show ?case
    by (cases "x = n"; cases t) (auto simp: Let_def)
qed

lemma str_split_rev: "str_split n (rev s) = rev (map rev (str_split n s))"
proof (induction s)
  case Nil
  then show ?case by simp
next
  case (Cons c s)
  obtain h t where ht: "str_split n s = h # t"
    by (cases "str_split n s") simp_all
  show ?case
  proof (cases "c = n")
    case True
    have "str_split n (rev s @ n # []) = str_split n (rev s) @ str_split n []"
      by (rule str_split_append_sep)
    with Cons True show ?thesis by simp
  next
    case False
    with Cons ht show ?thesis
      by (simp add: str_split_snoc_other Let_def)
  qed
qed

lemma str_strip_fixed_rev: "str_strip (rev l) = rev l \<longleftrightarrow> str_strip l = l"
  by (cases "l = []") (auto simp: str_strip_fixed hd_rev last_rev)

lemma lines_stripped_rev: "lines_stripped (rev s) \<longleftrightarrow> lines_stripped s"
  by (simp add: str_split_rev str_strip_fixed_rev)

lemma lines_stripped_str_strip: "lines_stripped s \<Longrightarrow> lines_stripped (str_strip s)"
proof -
  assume "lines_stripped s"
  then have "lines_stripped (dropWhile isspace s)"
    by (rule lines_stripped_dropWhile)
  then have "lines_stripped (rev (dropWhile isspace s))"
    by (simp only: lines_stripped_rev)
  then have "lines_stripped (dropWhile isspace (rev (dropWhile isspace s)))"
    by (rule lines_stripped_dropWhile)
  then have "lines_stripped (rev (dropWhile isspace (rev (dropWhile isspace s))))"
    by (simp only: lines_stripped_rev)
  then show ?thesis by (simp only: str_strip_def)
qed

lemma str_strip_Nil [simp]: "str_strip [] = []"
  by (simp add: str_strip_def)

lemma sublist_str_strip: "sublist (str_strip s) s"
proof -
  have "sublist (dropWhile isspace (rev (dropWhile isspace s))) (rev (dropWhile isspace s))"
    by (rule sublist_dropWhile)
  then have "sublist (rev (dropWhile isspace (rev (dropWhile isspace s)))) (dropWhile isspace s)"
    by (simp only: sublist_rev_left rev_rev_ident)
  moreover have "sublist (dropWhile isspace s) s"
    by (rule sublist_dropWhile)
  ultimately show ?thesis
    unfolding str_strip_def by (rule sublist_order.order.trans)
qed

lemma sublist_trans: "sublist a b \<Longrightarrow> sublist b c \<Longrightarrow> sublist a c"
  by (rule sublist_order.order.trans)

lemma set_str_join: "set (str_join [n] ls) \<subseteq> insert n (\<Union>l\<in>set ls. set l)"
proof (induction ls)
  case Nil
  then show ?case by simp
next
  case (Cons l ls)
  show ?case
  proof (cases "ls = []")
    case True
    then show ?thesis by auto
  next
    case False
    then have "str_join [n] (l # ls) = l @ [n] @ str_join [n] ls"
      by (rule str_join_Cons)
    with Cons show ?thesis by auto
  qed
qed

lemma set_stripped_line:
  assumes "l \<in> set (map str_strip (str_split 10 s))"
  shows "set l \<subseteq> set s"
proof -
  from assms obtain l' where l': "l' \<in> set (str_split 10 s)" "l = str_strip l'"
    by auto
  from l'(1) have "sublist l' s" by (rule str_split_line_sublist)
  then have "set l' \<subseteq> set s" by (rule set_mono_sublist)
  moreover have "set l \<subseteq> set l'" unfolding l'(2) by (rule set_str_strip)
  ultimately show ?thesis by (rule order_trans[rotated])
qed

lemma set_strip_lines: "set (strip_lines s) \<subseteq> insert 10 (set s)"
proof
  fix x
  assume "x \<in> set (strip_lines s)"
  then have "x \<in> set (str_join [10] (map str_strip (str_split 10 s)))"
    by (simp add: strip_lines_def)
  with set_str_join[of 10 "map str_strip (str_split 10 s)"]
  have "x = 10 \<or> (\<exists>l\<in>set (map str_strip (str_split 10 s)). x \<in> set l)"
    by blast
  then show "x \<in> insert 10 (set s)"
    using set_stripped_line by blast
qed

lemma sublist_strip_lines:
  assumes p: "p \<noteq> []" "10 \<notin> set p" and sub: "sublist p (strip_lines s)"
  shows "sublist p s"
proof -
  from sub have "sublist p (str_join [10] (map str_strip (str_split 10 s)))"
    by (simp add: strip_lines_def)
  from sublist_str_join[OF p this]
  obtain l where l: "l \<in> set (map str_strip (str_split 10 s))" "sublist p l"
    by blast
  from l(1) obtain l' where l': "l' \<in> set (str_split 10 s)" "l = str_strip l'"
    by auto
  have "sublist l l'" unfolding l'(2) by (rule sublist_str_strip)
  with l(2) have "sublist p l'" by (rule sublist_trans)
  moreover from l'(1) have "sublist l' s" by (rule str_split_line_sublist)
  ultimately show ?thesis by (rule sublist_trans)
qed

lemma rule_facts:
  "light_rule \<noteq> []" "heavy_rule \<noteq> []"
  "set light_rule = {9472}" "set heavy_rule = {9552}"
  by (simp_all add: light_rule_def heavy_rule_def)

lemma lit_facts:
  "lit ''---'' = [45, 45, 45]" "lit ''==='' = [61, 61, 61]"
  "lit ''\<newline>\<newline>\<newline>'' = [10, 10, 10]" "lit ''\<newline>\<newline>'' = [10, 10]" "lit ''\<newline>'' = [10]"
  by simp_all

text \<open>
  The string that \<^verbatim>\<open>clean_markdown_text\<close> has before its final strip, and what
  holds of it.
\<close>

lemma markdown_pipeline_props:
  fixes t :: pystr
  defines "e \<equiv> collapse_blank_lines (strip_lines
      (str_replace (lit ''==='') heavy_rule (str_replace (lit ''---'') light_rule (remove_markdown t))))"
  shows "35 \<notin> set e" "42 \<notin> set e"
    "\<not> sublist (lit ''---'') e" "\<not> sublist (lit ''==='') e"
    "lines_stripped e" "\<not> sublist (lit ''\<newline>\<newline>\<newline>'') e"
proof -
  define a where "a = remove_markdown t"
  define b where "b = str_replace (lit ''---'') light_rule a"
  define c where "c = str_replace (lit ''==='') heavy_rule b"
  define d where "d = strip_lines c"
  have e: "e = collapse_blank_lines d"
    by (simp only: e_def a_def b_def c_def d_def)
  have sa: "set a = set t - {35, 42}" unfolding a_def by (rule set_remove_markdown)
  have sb: "set b \<subseteq> set a \<union> set light_rule" unfolding b_def by (rule set_str_replace)
  have sc: "set c \<subseteq> set b \<union> set heavy_rule" unfolding c_def by (rule set_str_replace)
  have sd: "set d \<subseteq> insert 10 (set c)" unfolding d_def by (rule set_strip_lines)
  have se: "set e \<subseteq> set d" unfolding e by (rule set_collapse_blank_lines)
  have "set e \<subseteq> insert 10 (set t - {35, 42} \<union> {9472} \<union> {9552})"
    using sa sb sc sd se unfolding rule_facts by blast
  then show "35 \<notin> set e" "42 \<notin> set e" by auto
  have dash: "lit ''---'' \<noteq> []" "10 \<notin> set (lit ''---'')"
    "set (lit ''---'') \<inter> set light_rule = {}" "set (lit ''---'') \<inter> set heavy_rule = {}"
    by (simp_all add: rule_facts)
  have eq: "lit ''==='' \<noteq> []" "10 \<notin> set (lit ''==='')"
    "set (lit ''==='') \<inter> set heavy_rule = {}"
    by (simp_all add: rule_facts)
  have nb: "\<not> sublist (lit ''---'') b"
    unfolding b_def by (rule str_replace_removes[OF dash(1) rule_facts(1) dash(3)])
  have nc1: "\<not> sublist (lit ''---'') c"
  proof
    assume "sublist (lit ''---'') c"
    then have "sublist (lit ''---'') b"
      unfolding c_def by (rule sublist_str_replace[OF eq(1) rule_facts(2) dash(4)])
    with nb show False ..
  qed
  have nc2: "\<not> sublist (lit ''==='') c"
    unfolding c_def by (rule str_replace_removes[OF eq(1) rule_facts(2) eq(3)])
  have ne: "\<not> sublist p e" if p: "p \<noteq> []" "10 \<notin> set p" and n: "\<not> sublist p c" for p
  proof
    assume "sublist p e"
    then have "sublist p d" unfolding e by (rule sublist_collapse_blank_lines[OF p(2)])
    then have "sublist p c" unfolding d_def by (rule sublist_strip_lines[OF p])
    with n show False ..
  qed
  show "\<not> sublist (lit ''---'') e" by (rule ne[OF dash(1,2) nc1])
  show "\<not> sublist (lit ''==='') e" by (rule ne[OF eq(1,2) nc2])
  show "lines_stripped e"
    unfolding e d_def by (rule lines_stripped_collapse) (rule lines_stripped_strip_lines)
  show "\<not> sublist (lit ''\<newline>\<newline>\<newline>'') e"
    unfolding e by (rule collapse_blank_lines_no_triple)
qed

lemma clean_markdown_text_fixed:
  assumes "35 \<notin> set f" "42 \<notin> set f"
    and "\<not> sublist (lit ''---'') f" "\<not> sublist (lit ''==='') f"
    and "lines_stripped f" "\<not> sublist (lit ''\<newline>\<newline>\<newline>'') f"
    and "str_strip f = f"
  shows "clean_markdown_text (Some f) = f"
proof (cases "f = []")
  case True
  then show ?thesis by (simp add: clean_markdown_text_def)
next
  case False
  have ne: "lit ''---'' \<noteq> []" "lit ''==='' \<noteq> []" by simp_all
  have 1: "remove_markdown f = f" using assms(1,2) by (rule remove_markdown_id)
  have 2: "str_replace (lit ''---'') light_rule f = f"
    by (rule str_replace_absent[OF ne(1) assms(3)])
  have 3: "str_replace (lit ''==='') heavy_rule f = f"
    by (rule str_replace_absent[OF ne(2) assms(4)])
  have 4: "strip_lines f = f" using assms(5) by (rule strip_lines_fixed)
  have 5: "collapse_blank_lines f = f" using assms(6) by (rule collapse_blank_lines_fixed)
  have "clean_markdown_text (Some f) =
      str_strip (collapse_blank_lines (strip_lines
        (str_replace (lit ''==='') heavy_rule
          (str_replace (lit ''---'') light_rule (remove_markdown f)))))"
    using False unfolding clean_markdown_text_def by (simp only: option.case if_False)
  then show ?thesis by (simp only: 1 2 3 4 5 assms(7))
qed

lemma clean_markdown_text_Nil:
  "x = None \<or> x = Some [] \<Longrightarrow> clean_markdown_text x = []"
  by (auto simp: clean_markdown_text_def)

lemma clean_markdown_text_props:
  shows "35 \<notin> set (clean_markdown_text x)" "42 \<notin> set (clean_markdown_text x)"
    "\<not> sublist (lit ''---'') (clean_markdown_text x)"
    "\<not> sublist (lit ''==='') (clean_markdown_text x)"
    "lines_stripped (clean_markdown_text x)"
    "\<not> sublist (lit ''\<newline>\<newline>\<newline>'') (clean_markdown_text x)"
    "str_strip (clean_markdown_text x) = clean_markdown_text x"
proof -
  define f where "f = clean_markdown_text x"
  have "35 \<notin> set f \<and> 42 \<notin> set f \<and> \<not> sublist (lit ''---'') f \<and> \<not> sublist (lit ''==='') f \<and>
      lines_stripped f \<and> \<not> sublist (lit ''\<newline>\<newline>\<newline>'') f \<and> str_strip f = f"
  proof (cases "x = None \<or> x = Some []")
    case True
    then have "f = []" unfolding f_def by (rule clean_markdown_text_Nil)
    then show ?thesis by simp
  next
    case False
    then obtain t where t: "x = Some t" "t \<noteq> []" by auto
    define e where "e = collapse_blank_lines (strip_lines
      (str_replace (lit ''==='') heavy_rule (str_replace (lit ''---'') light_rule (remove_markdown t))))"
    have f: "f = str_strip e"
      unfolding f_def e_def t(1) clean_markdown_text_def using t(2)
      by (simp only: option.case if_False)
    note props = markdown_pipeline_props[of t, folded e_def]
    have sub: "sublist f e" unfolding f by (rule sublist_str_strip)
    have "set f \<subseteq> set e" using sub by (rule set_mono_sublist)
    with props(1,2) have 1: "35 \<notin> set f" "42 \<notin> set f" by blast+
    have n: "\<not> sublist p f" if "\<not> sublist p e" for p
    proof
      assume "sublist p f"
      then have "sublist p e" using sub by (rule sublist_trans)
      with that show False ..
    qed
    have 2: "\<not> sublist (lit ''---'') f" by (rule n[OF props(3)])
    have 3: "\<not> sublist (lit ''==='') f" by (rule n[OF props(4)])
    have 4: "\<not> sublist (lit ''\<newline>\<newline>\<newline>'') f" by (rule n[OF props(6)])
    have 5: "lines_stripped f" unfolding f using props(5) by (rule lines_stripped_str_strip)
    have 6: "str_strip f = f" unfolding f by (rule str_strip_idem)
    from 1 2 3 4 5 6 show ?thesis by (intro conjI)
  qed
  then show "35 \<notin> set (clean_markdown_text x)" "42 \<notin> set (clean_markdown_text x)"
    "\<not> sublist (lit ''---'') (clean_markdown_text x)"
    "\<not> sublist (lit ''==='') (clean_markdown_text x)"
    "lines_stripped (clean_markdown_text x)"
    "\<not> sublist (lit ''\<newline>\<newline>\<newline>'') (clean_markdown_text x)"
    "str_strip (clean_markdown_text x) = clean_markdown_text x"
    unfolding f_def by blast+
qed

lemma clean_text_props:
  shows "35 \<notin> set (clean_text x)" "42 \<notin> set (clean_text x)"
    "str_strip (clean_text x) = clean_text x"
proof -
  have "set (clean_text x) \<subseteq> (case x of None \<Rightarrow> {} | Some t \<Rightarrow> set (remove_markdown t))"
    using set_str_strip by (auto simp: clean_text_def split: option.splits)
  then show "35 \<notin> set (clean_text x)" "42 \<notin> set (clean_text x)"
    by (auto simp: set_remove_markdown split: option.splits)
  show "str_strip (clean_text x) = clean_text x"
    by (simp add: clean_text_def str_strip_idem split: option.splits)
qed

lemma clean_text_fixed:
  "35 \<notin> set f \<Longrightarrow> 42 \<notin> set f \<Longrightarrow> str_strip f = f \<Longrightarrow> clean_text (Some f) = f"
  by (simp add: clean_text_def remove_markdown_id)

section \<open>Provider failures\<close>

text \<open>
  C1. Whichever provider is selected, when its key is configured and its client raises
  an exception during the call, \<^verbatim>\<open>generate_content\<close> does not raise: it returns
  \<^verbatim>\<open>None\<close> and shows the error \<^verbatim>\<open>Error generating content: \<close> followed by the
  exception's \<^verbatim>\<open>str\<close>. This holds on the performance-management page and on the
  employee-relations page, whose Gemini request also carries the images.
\<close>

theorem provider_exception_caught:
  "(selected_model e s = lit ''Gemini (Google)'' \<longrightarrow> truthy (GEMINI_API_KEY e) \<longrightarrow>
      gemini_client e [TextPart (sp @ lit ''\<newline>\<newline>'' @ prompt)] = Raises msg \<longrightarrow>
      generate_content sp e s prompt ct =
        (None, [GeminiCall [TextPart (sp @ lit ''\<newline>\<newline>'' @ prompt)],
                StError (lit ''Error generating content: '' @ msg)])) \<and>
   (selected_model e s = lit ''GPT-4.1 (OpenAI)'' \<longrightarrow> truthy (OPENAI_API_KEY e) \<longrightarrow>
      openai_client e prompt = Raises msg \<longrightarrow>
      generate_content sp e s prompt ct =
        (None, [OpenAICall prompt, StError (lit ''Error generating content: '' @ msg)])) \<and>
   (selected_model e s = lit ''Gemini (Google)'' \<longrightarrow> truthy (GEMINI_API_KEY e) \<longrightarrow>
      gemini_client e ([TextPart sp, TextPart prompt] @ image_parts imgs) = Raises msg \<longrightarrow>
      generate_content_images sp e s prompt ct imgs =
        (None, [GeminiCall ([TextPart sp, TextPart prompt] @ image_parts imgs),
                StError (lit ''Error generating content: '' @ msg)])) \<and>
   (selected_model e s = lit ''GPT-4.1 (OpenAI)'' \<longrightarrow> truthy (OPENAI_API_KEY e) \<longrightarrow>
      openai_client e prompt = Raises msg \<longrightarrow>
      generate_content_images sp e s prompt ct imgs =
        (None, [OpenAICall prompt, StError (lit ''Error generating content: '' @ msg)]))"
  by (simp add: generate_content_def generate_content_images_def Let_def)

theorem provider_exception_caught_witness:
  "selected_model (stub_env (Some (lit ''key'')) None (Raises (lit ''timed out'')))
     (session_with None) = lit ''Gemini (Google)'' \<and>
   truthy (GEMINI_API_KEY (stub_env (Some (lit ''key'')) None (Raises (lit ''timed out'')))) \<and>
   gemini_client (stub_env (Some (lit ''key'')) None (Raises (lit ''timed out'')))
     [TextPart (lit ''You are an expert.'' @ lit ''\<newline>\<newline>'' @ lit ''Write a plan'')]
     = Raises (lit ''timed out'') \<and>
   generate_content (lit ''You are an expert.'')
     (stub_env (Some (lit ''key'')) None (Raises (lit ''timed out'')))
     (session_with None) (lit ''Write a plan'') (lit ''IDP'') =
     (None, [GeminiCall [TextPart (lit ''You are an expert.\<newline>\<newline>Write a plan'')],
             StError (lit ''Error generating content: timed out'')])"
  using provider_exception_caught
    [of "stub_env (Some (lit ''key'')) None (Raises (lit ''timed out''))" "session_with None"
        "lit ''You are an expert.''" "lit ''Write a plan''" "lit ''timed out''" "lit ''IDP''"]
  by (simp add: stub_env_def session_with_def selected_model_def available_models_def
      truthy_def gemini_stub_def)

section \<open>A provider without a key\<close>

text \<open>
  C2. When the selected provider has no key (the variable is unset or empty),
  \<^verbatim>\<open>generate_content\<close> returns \<^verbatim>\<open>None\<close>, shows the request to add the key, and
  sends nothing to any provider, whatever the prompt is.
\<close>

theorem missing_key_no_call:
  "(selected_model e s = lit ''Gemini (Google)'' \<longrightarrow> \<not> truthy (GEMINI_API_KEY e) \<longrightarrow>
      generate_content sp e s prompt ct =
        (None, [StError (lit ''Please add your Gemini API key to the .env file'')])) \<and>
   (selected_model e s = lit ''GPT-4.1 (OpenAI)'' \<longrightarrow> \<not> truthy (OPENAI_API_KEY e) \<longrightarrow>
      generate_content sp e s prompt ct =
        (None, [StError (lit ''Please add your OpenAI API key to the .env file'')])) \<and>
   ((selected_model e s = lit ''Gemini (Google)'' \<and> \<not> truthy (GEMINI_API_KEY e)) \<or>
    (selected_model e s = lit ''GPT-4.1 (OpenAI)'' \<and> \<not> truthy (OPENAI_API_KEY e)) \<longrightarrow>
      fst (generate_content sp e s prompt ct) = None \<and>
      network_calls (snd (generate_content sp e s prompt ct)) = [])"
  by (auto simp add: generate_content_def Let_def network_calls_def)

theorem missing_key_no_call_witness:
  "selected_model (stub_env (Some (lit ''key'')) None (Returns (lit ''ok'')))
     (session_with (Some (lit ''GPT-4.1 (OpenAI)''))) = lit ''GPT-4.1 (OpenAI)'' \<and>
   \<not> truthy (OPENAI_API_KEY (stub_env (Some (lit ''key'')) None (Returns (lit ''ok'')))) \<and>
   generate_content (lit ''You are an expert.'')
     (stub_env (Some (lit ''key'')) None (Returns (lit ''ok'')))
     (session_with (Some (lit ''GPT-4.1 (OpenAI)''))) (lit ''Write a plan'') (lit ''IDP'') =
     (None, [StError (lit ''Please add your OpenAI API key to the .env file'')]) \<and>
   network_calls (snd (generate_content (lit ''You are an expert.'')
     (stub_env (Some (lit ''key'')) None (Returns (lit ''ok'')))
     (session_with (Some (lit ''GPT-4.1 (OpenAI)''))) (lit ''Write a plan'') (lit ''IDP''))) = []"
  using missing_key_no_call
    [of "stub_env (Some (lit ''key'')) None (Returns (lit ''ok''))"
        "session_with (Some (lit ''GPT-4.1 (OpenAI)''))"
        "lit ''You are an expert.''" "lit ''Write a plan''" "lit ''IDP''"]
  by (simp add: stub_env_def session_with_def selected_model_def truthy_def network_calls_def)

section \<open>Text and reason of a result\<close>

text \<open>
  C3, as the code has it. Every call of \<^verbatim>\<open>generate_content\<close> ends in one of two
  ways: it returns \<^verbatim>\<open>None\<close> and has shown exactly one error, which is not empty; or it
  returns a string and has shown no error, and the string is the one that the client of
  the selected provider returned for the request. The string is returned as it came, so
  it may be empty.
\<close>

theorem result_text_or_reason:
  "(fst (generate_content sp e s prompt ct) = None \<and>
      (\<exists>m. errors_shown (snd (generate_content sp e s prompt ct)) = [m] \<and> m \<noteq> [])) \<or>
   (\<exists>t. fst (generate_content sp e s prompt ct) = Some t \<and>
      errors_shown (snd (generate_content sp e s prompt ct)) = [] \<and>
      ((selected_model e s = lit ''Gemini (Google)'' \<and>
          gemini_client e [TextPart (sp @ lit ''\<newline>\<newline>'' @ prompt)] = Returns t) \<or>
       (selected_model e s = lit ''GPT-4.1 (OpenAI)'' \<and> openai_client e prompt = Returns t)))"
  by (auto simp add: generate_content_def Let_def errors_shown_def List.map_filter_simps(2)
      split: client_result.splits)

text \<open>
  C3 as stated fails when the provider answers with the empty string: the call returns
  the empty text and shows no reason.
\<close>

theorem empty_response_no_reason:
  "fst (generate_content (lit ''You are an expert.'')
     (stub_env (Some (lit ''key'')) None (Returns [])) (session_with None)
     (lit ''Write a plan'') (lit ''IDP'')) = Some [] \<and>
   errors_shown (snd (generate_content (lit ''You are an expert.'')
     (stub_env (Some (lit ''key'')) None (Returns [])) (session_with None)
     (lit ''Write a plan'') (lit ''IDP''))) = []"
  by (simp add: generate_content_def Let_def errors_shown_def List.map_filter_simps(2)
      stub_env_def session_with_def selected_model_def available_models_def truthy_def
      gemini_stub_def)

section \<open>The prompt that is dispatched\<close>

text \<open>
  C5, as the code has it. On the talent-development and performance-management pages a
  call that reaches Gemini sends one string: the page's system prompt, two newlines and
  the prompt. On the employee-relations page it sends the system prompt and the prompt as
  two parts, followed by one part for each image. On these pages a call that reaches
  OpenAI sends the prompt alone.
\<close>

theorem dispatched_prompt:
  "(selected_model e s = lit ''Gemini (Google)'' \<longrightarrow> truthy (GEMINI_API_KEY e) \<longrightarrow>
      network_calls (snd (generate_content sp e s prompt ct)) =
        [GeminiCall [TextPart (sp @ lit ''\<newline>\<newline>'' @ prompt)]] \<and>
      network_calls (snd (generate_content_images sp e s prompt ct imgs)) =
        [GeminiCall ([TextPart sp, TextPart prompt] @ image_parts imgs)]) \<and>
   (selected_model e s = lit ''GPT-4.1 (OpenAI)'' \<longrightarrow> truthy (OPENAI_API_KEY e) \<longrightarrow>
      network_calls (snd (generate_content sp e s prompt ct)) = [OpenAICall prompt] \<and>
      network_calls (snd (generate_content_images sp e s prompt ct imgs)) = [OpenAICall prompt])"
  by (auto simp add: generate_content_def generate_content_images_def Let_def network_calls_def
      split: client_result.splits)

theorem dispatched_prompt_witness:
  "selected_model (stub_env (Some (lit ''key'')) None (Returns (lit ''ok''))) (session_with None)
     = lit ''Gemini (Google)'' \<and>
   truthy (GEMINI_API_KEY (stub_env (Some (lit ''key'')) None (Returns (lit ''ok'')))) \<and>
   network_calls (snd (generate_content (lit ''You are an expert.'')
     (stub_env (Some (lit ''key'')) None (Returns (lit ''ok''))) (session_with None)
     (lit ''Write a plan'') (lit ''IDP''))) =
     [GeminiCall [TextPart (lit ''You are an expert.\<newline>\<newline>Write a plan'')]] \<and>
   network_calls (snd (generate_content_images (lit ''You are an expert.'')
     (stub_env (Some (lit ''key'')) None (Returns (lit ''ok''))) (session_with None)
     (lit ''Write a plan'') (lit ''IDP'')
     (Some [\<lparr>file_type = lit ''image/png'', file_value = [137, 80, 78, 71]\<rparr>]))) =
     [GeminiCall [TextPart (lit ''You are an expert.''), TextPart (lit ''Write a plan''),
        InlineData (lit ''image/png'') [137, 80, 78, 71]]]"
  using dispatched_prompt
    [of "stub_env (Some (lit ''key'')) None (Returns (lit ''ok''))" "session_with None"
        "lit ''You are an expert.''" "lit ''Write a plan''" "lit ''IDP''"
        "Some [\<lparr>file_type = lit ''image/png'', file_value = [137, 80, 78, 71]\<rparr>]"]
  by (simp add: stub_env_def session_with_def selected_model_def available_models_def truthy_def
      image_parts_def)

text \<open>
  C5 as stated fails for OpenAI: on the talent-development page the request is the prompt
  without the system prompt.
\<close>

theorem openai_prompt_without_preamble:
  "network_calls (snd (generate_ai_content
     (stub_env None (Some (lit ''key'')) (Returns (lit ''ok''))) (session_with None)
     (lit ''Write a plan'') (lit ''IDP''))) = [OpenAICall (lit ''Write a plan'')] \<and>
   lit ''Write a plan'' \<noteq>
     talent_development_system_prompt @ lit ''\<newline>\<newline>'' @ lit ''Write a plan''"
  by (simp add: talent_development_system_prompt_def generate_ai_content_def
      generate_content_def Let_def network_calls_def stub_env_def session_with_def
      selected_model_def available_models_def truthy_def openai_stub_def)

section \<open>The guard of the Generate IDP button\<close>

text \<open>
  C6, as the code has it. When the employee name or the current role is the empty string
  (so also when every field is empty), the handler shows the request to fill them in,
  leaves the session as it is and sends nothing. When both are non-empty, it runs the
  generation on the interpolated prompt.
\<close>

theorem blank_required_field_no_call:
  "(employee_name f = [] \<or> current_role f = [] \<longrightarrow>
      generate_idp_clicked e s f =
        (s, [StError (lit ''Please fill in at least Employee Name and Current Role'')])) \<and>
   (employee_name f \<noteq> [] \<and> current_role f \<noteq> [] \<longrightarrow>
      snd (generate_idp_clicked e s f) =
        snd (generate_ai_content e s (idp_prompt f) (lit ''IDP'')))"
  by (auto simp add: generate_idp_clicked_def split: prod.splits option.splits)

theorem blank_required_field_no_call_witness:
  "(employee_name (form_with [] []) = [] \<or> current_role (form_with [] []) = []) \<and>
   generate_idp_clicked (stub_env (Some (lit ''key'')) None (Returns (lit ''ok'')))
     (session_with None) (form_with [] []) =
     (session_with None,
      [StError (lit ''Please fill in at least Employee Name and Current Role'')])"
  using blank_required_field_no_call
    [of "form_with [] []" "stub_env (Some (lit ''key'')) None (Returns (lit ''ok''))"
        "session_with None"]
  by (simp add: form_with_def)

text \<open>
  C6 as stated fails for fields of whitespace only: a name and a role of one space pass
  the guard and the prompt goes to the provider.
\<close>

theorem whitespace_fields_dispatched:
  "network_calls (snd (generate_idp_clicked
     (stub_env (Some (lit ''key'')) None (Returns (lit ''ok''))) (session_with None)
     (form_with (lit '' '') (lit '' '')))) =
   [GeminiCall [TextPart (talent_development_system_prompt @ lit ''\<newline>\<newline>'' @
      idp_prompt (form_with (lit '' '') (lit '' '')))]]"
  by (simp add: generate_idp_clicked_def generate_ai_content_def generate_content_def Let_def
      network_calls_def stub_env_def session_with_def selected_model_def available_models_def
      truthy_def gemini_stub_def form_with_def)

section \<open>The stored model choice\<close>

lemma list_index_mem:
  "x \<in> set xs \<Longrightarrow> \<exists>i. list_index xs x = Some i \<and> i < length xs \<and> xs ! i = x"
  by (induction xs) auto

lemma default_model_choice_mem:
  "am \<noteq> [] \<Longrightarrow> \<exists>m. model_choice (default_model_choice am s) = Some m \<and> m \<in> set am"
  by (auto simp: default_model_choice_def split: option.splits)

text \<open>
  C8, as the code has it. On the pages that compute \<^verbatim>\<open>available_models\<close> (01 to 06),
  with at least one key configured and a selectbox that returns one of its options, the
  sidebar does not raise and leaves a stored choice that is one of the available models.
  Before the selectbox is shown, a missing choice and a choice that is not available are
  replaced by the first available model, and an available choice is kept. The sidebar of
  pages 07 to 09 leaves the session as it is: it shows whether the Gemini key is there
  when the stored choice is Gemini, and whether the OpenAI key is there otherwise, also
  when no choice is stored.
\<close>

theorem sidebar_choice_available:
  "(available_models e \<noteq> [] \<longrightarrow>
    (\<forall>options i. i < length options \<longrightarrow> selectbox options i \<in> set options) \<longrightarrow>
      (\<exists>s' evs m. sidebar selectbox e s = Inr (s', evs) \<and> model_choice s' = Some m \<and>
            m \<in> set (available_models e))) \<and>
   (model_choice s = None \<or> (\<exists>m. model_choice s = Some m \<and> m \<notin> set (available_models e))
      \<longrightarrow> model_choice (default_model_choice (available_models e) s) =
            Some (hd (available_models e))) \<and>
   ((\<exists>m. model_choice s = Some m \<and> m \<in> set (available_models e))
      \<longrightarrow> default_model_choice (available_models e) s = s) \<and>
   fst (sidebar_status e s) = s \<and>
   (model_choice s = Some (lit ''Gemini (Google)'') \<longrightarrow>
      snd (sidebar_status e s) =
        [if truthy (GEMINI_API_KEY e) then StSuccess (9989 # lit '' Gemini API Key loaded'')
         else StError (10060 # lit '' GEMINI_API_KEY not found'')]) \<and>
   (model_choice s \<noteq> Some (lit ''Gemini (Google)'') \<longrightarrow>
      snd (sidebar_status e s) =
        [if truthy (OPENAI_API_KEY e) then StSuccess (9989 # lit '' OpenAI API Key loaded'')
         else StError (10060 # lit '' OPENAI_API_KEY not found'')])"
proof -
  have 1: "\<exists>s' evs m. sidebar selectbox e s = Inr (s', evs) \<and> model_choice s' = Some m \<and>
      m \<in> set (available_models e)"
    if ne: "available_models e \<noteq> []"
      and sel: "\<forall>options i. i < length options \<longrightarrow> selectbox options i \<in> set options"
  proof -
    obtain m where m: "model_choice (default_model_choice (available_models e) s) = Some m"
        "m \<in> set (available_models e)"
      using default_model_choice_mem[OF ne] by blast
    obtain i where i: "list_index (available_models e) m = Some i"
        "i < length (available_models e)"
      using list_index_mem[OF m(2)] by blast
    from sel i(2) have "selectbox (available_models e) i \<in> set (available_models e)"
      by blast
    with m i ne show ?thesis
      by (simp add: sidebar_def Let_def)
  qed
  have 2: "model_choice s = None \<or> (\<exists>m. model_choice s = Some m \<and> m \<notin> set (available_models e))
      \<longrightarrow> model_choice (default_model_choice (available_models e) s) =
            Some (hd (available_models e))"
    by (auto simp: default_model_choice_def)
  have 3: "(\<exists>m. model_choice s = Some m \<and> m \<in> set (available_models e))
      \<longrightarrow> default_model_choice (available_models e) s = s"
    by (auto simp: default_model_choice_def)
  have 4: "fst (sidebar_status e s) = s"
    by (simp add: sidebar_status_def)
  have 5: "model_choice s = Some (lit ''Gemini (Google)'') \<longrightarrow>
      snd (sidebar_status e s) =
        [if truthy (GEMINI_API_KEY e) then StSuccess (9989 # lit '' Gemini API Key loaded'')
         else StError (10060 # lit '' GEMINI_API_KEY not found'')]"
    by (simp add: sidebar_status_def)
  have 6: "model_choice s \<noteq> Some (lit ''Gemini (Google)'') \<longrightarrow>
      snd (sidebar_status e s) =
        [if truthy (OPENAI_API_KEY e) then StSuccess (9989 # lit '' OpenAI API Key loaded'')
         else StError (10060 # lit '' OPENAI_API_KEY not found'')]"
    by (simp add: sidebar_status_def)
  from 1 2 3 4 5 6 show ?thesis by blast
qed

theorem sidebar_choice_available_witness:
  "sidebar selectbox_untouched (stub_env None (Some (lit ''key'')) (Returns (lit ''ok'')))
     (session_with (Some (lit ''Gemini (Google)''))) =
   Inr (session_with (Some (lit ''GPT-4.1 (OpenAI)'')),
        [StSuccess (9989 # lit '' OpenAI API Key loaded from .env file'')]) \<and>
   lit ''GPT-4.1 (OpenAI)'' \<in>
     set (available_models (stub_env None (Some (lit ''key'')) (Returns (lit ''ok'')))) \<and>
   sidebar_status (stub_env None (Some (lit ''key'')) (Returns (lit ''ok'')))
     (session_with (Some (lit ''Gemini (Google)''))) =
   (session_with (Some (lit ''Gemini (Google)'')),
    [StError (10060 # lit '' GEMINI_API_KEY not found'')]) \<and>
   sidebar_status (stub_env None (Some (lit ''key'')) (Returns (lit ''ok''))) (session_with None) =
   (session_with None, [StSuccess (9989 # lit '' OpenAI API Key loaded'')])"
proof -
  have a: "available_models (stub_env None (Some (lit ''key'')) (Returns (lit ''ok''))) \<noteq> []"
    by (simp add: available_models_def stub_env_def truthy_def)
  have b: "\<forall>options i. i < length options \<longrightarrow> selectbox_untouched options i \<in> set options"
    by (simp add: selectbox_untouched_def)
  show ?thesis
    using a b sidebar_choice_available[of "stub_env None (Some (lit ''key'')) (Returns (lit ''ok''))"
        selectbox_untouched "session_with (Some (lit ''Gemini (Google)''))"]
      sidebar_choice_available[of "stub_env None (Some (lit ''key'')) (Returns (lit ''ok''))"
        selectbox_untouched "session_with None"]
    by (simp add: sidebar_def sidebar_status_def default_model_choice_def Let_def
        available_models_def stub_env_def truthy_def session_with_def selectbox_untouched_def)
qed

text \<open>
  C8 as stated fails on the compensation page (and on pages 07 and 09, which have the same
  sidebar): with the OpenAI key only and a stored choice of Gemini, the sidebar leaves the
  choice, which is not an available model.
\<close>

theorem status_sidebar_keeps_stale_choice:
  "model_choice (fst (sidebar_status (stub_env None (Some (lit ''key'')) (Returns (lit ''ok'')))
     (session_with (Some (lit ''Gemini (Google)''))))) = Some (lit ''Gemini (Google)'') \<and>
   available_models (stub_env None (Some (lit ''key'')) (Returns (lit ''ok''))) =
     [lit ''GPT-4.1 (OpenAI)'']"
  by (simp add: sidebar_status_def stub_env_def session_with_def available_models_def truthy_def)

section \<open>What the generation returns and what normalisation removes\<close>

text \<open>The first end-to-end scenario of the specification, on \<^verbatim>\<open>clean_text\<close> alone.\<close>

lemma clean_text_hello_world: "clean_text (Some (lit ''**Hello** #World'')) = lit ''Hello World''"
  by (simp add: clean_text_def remove_markdown_filter str_strip_def isspace_def)

text \<open>
  C4, as the code has it. With a configured provider whose client returns a string,
  \<^verbatim>\<open>generate_content\<close> returns that string unchanged; it does not normalise it.
  Normalisation is the separate function \<^verbatim>\<open>clean_text\<close> (\<^verbatim>\<open>clean_markdown_text\<close>
  on the talent-acquisition page): applied to any text, or to \<^verbatim>\<open>None\<close>, it returns a
  text that holds neither \<^verbatim>\<open>#\<close> nor \<^verbatim>\<open>*\<close>.
\<close>

theorem generation_returns_raw_text:
  "(selected_model e s = lit ''Gemini (Google)'' \<longrightarrow> truthy (GEMINI_API_KEY e) \<longrightarrow>
      gemini_client e [TextPart (sp @ lit ''\<newline>\<newline>'' @ prompt)] = Returns text \<longrightarrow>
      generate_content sp e s prompt ct =
        (Some text, [GeminiCall [TextPart (sp @ lit ''\<newline>\<newline>'' @ prompt)]])) \<and>
   (selected_model e s = lit ''GPT-4.1 (OpenAI)'' \<longrightarrow> truthy (OPENAI_API_KEY e) \<longrightarrow>
      openai_client e prompt = Returns text \<longrightarrow>
      generate_content sp e s prompt ct = (Some text, [OpenAICall prompt])) \<and>
   set (clean_text x) \<inter> set (lit ''#*'') = {} \<and>
   set (clean_markdown_text x) \<inter> set (lit ''#*'') = {}"
proof -
  have "set (clean_text x) \<inter> set (lit ''#*'') = {}"
    using clean_text_props(1,2)[of x] by simp
  moreover have "set (clean_markdown_text x) \<inter> set (lit ''#*'') = {}"
    using clean_markdown_text_props(1,2)[of x] by simp
  ultimately show ?thesis
    by (simp add: generate_content_def Let_def)
qed

theorem generation_returns_raw_text_witness:
  "selected_model (stub_env (Some (lit ''key'')) None (Returns (lit ''**Hello** #World'')))
     (session_with None) = lit ''Gemini (Google)'' \<and>
   truthy (GEMINI_API_KEY (stub_env (Some (lit ''key'')) None (Returns (lit ''**Hello** #World'')))) \<and>
   gemini_client (stub_env (Some (lit ''key'')) None (Returns (lit ''**Hello** #World'')))
     [TextPart (lit ''You are an expert.'' @ lit ''\<newline>\<newline>'' @ lit ''Write a plan'')]
     = Returns (lit ''**Hello** #World'') \<and>
   generate_content (lit ''You are an expert.'')
     (stub_env (Some (lit ''key'')) None (Returns (lit ''**Hello** #World'')))
     (session_with None) (lit ''Write a plan'') (lit ''IDP'') =
     (Some (lit ''**Hello** #World''),
      [GeminiCall [TextPart (lit ''You are an expert.\<newline>\<newline>Write a plan'')]])"
  using generation_returns_raw_text
    [of "stub_env (Some (lit ''key'')) None (Returns (lit ''**Hello** #World''))" "session_with None"
        "lit ''You are an expert.''" "lit ''Write a plan''" "lit ''**Hello** #World''" "lit ''IDP''"]
  by (simp add: stub_env_def session_with_def selected_model_def available_models_def
      truthy_def gemini_stub_def)

text \<open>
  C4 as stated fails: on the talent-development page, which has no normalisation, the
  text stored for the form of the specification's first scenario is the provider's
  markdown, with its \<^verbatim>\<open>#\<close> and \<^verbatim>\<open>*\<close>.
\<close>

theorem stored_idp_keeps_markdown:
  "generated_content (fst (generate_idp_clicked
     (stub_env (Some (lit ''key'')) None (Returns (lit ''**Hello** #World''))) (session_with None)
     (form_with (lit ''Jane Doe'') (lit ''Engineer'')))) (lit ''idp'') =
     Some (lit ''**Hello** #World'') \<and>
   set (lit ''**Hello** #World'') \<inter> set (lit ''#*'') = set (lit ''#*'')"
  by (simp add: generate_idp_clicked_def generate_ai_content_def generate_content_def Let_def
      stub_env_def session_with_def selected_model_def available_models_def
      truthy_def gemini_stub_def form_with_def)

section \<open>Normalisation is idempotent\<close>

text \<open>
  C7. Normalising twice gives what normalising once gives, for \<^verbatim>\<open>clean_text\<close> and for
  \<^verbatim>\<open>clean_markdown_text\<close>, on every string and on \<^verbatim>\<open>None\<close>.
\<close>

theorem normalisation_idempotent:
  "clean_text (Some (clean_text x)) = clean_text x \<and>
   clean_markdown_text (Some (clean_markdown_text x)) = clean_markdown_text x"
proof
  show "clean_text (Some (clean_text x)) = clean_text x"
    by (rule clean_text_fixed) (rule clean_text_props)+
  show "clean_markdown_text (Some (clean_markdown_text x)) = clean_markdown_text x"
    by (rule clean_markdown_text_fixed) (rule clean_markdown_text_props)+
qed

section \<open>The loop that collapses blank lines\<close>

text \<open>
  C9. Each iteration of the loop of \<^verbatim>\<open>clean_markdown_text\<close> runs on a string that
  holds three newlines in a row and makes it strictly shorter, so the loop ends on every
  input: \<open>collapse_blank_lines\<close> is a total function that satisfies the equation of the
  loop. Neither its result nor the result of \<^verbatim>\<open>clean_markdown_text\<close> holds three
  newlines in a row.
\<close>

theorem blank_line_loop_total:
  "(sublist (lit ''\<newline>\<newline>\<newline>'') s \<longrightarrow>
      length (str_replace (lit ''\<newline>\<newline>\<newline>'') (lit ''\<newline>\<newline>'') s) < length s) \<and>
   collapse_blank_lines s =
     (if sublist (lit ''\<newline>\<newline>\<newline>'') s
      then collapse_blank_lines (str_replace (lit ''\<newline>\<newline>\<newline>'') (lit ''\<newline>\<newline>'') s)
      else s) \<and>
   \<not> sublist (lit ''\<newline>\<newline>\<newline>'') (collapse_blank_lines s) \<and>
   \<not> sublist (lit ''\<newline>\<newline>\<newline>'') (clean_markdown_text x)"
proof (intro conjI impI)
  assume "sublist (lit ''\<newline>\<newline>\<newline>'') s"
  then show "length (str_replace (lit ''\<newline>\<newline>\<newline>'') (lit ''\<newline>\<newline>'') s) < length s"
    by (rule str_replace_shorter) simp
next
  show "collapse_blank_lines s =
     (if sublist (lit ''\<newline>\<newline>\<newline>'') s
      then collapse_blank_lines (str_replace (lit ''\<newline>\<newline>\<newline>'') (lit ''\<newline>\<newline>'') s)
      else s)"
    by (rule collapse_blank_lines.simps)
next
  show "\<not> sublist (lit ''\<newline>\<newline>\<newline>'') (collapse_blank_lines s)"
    by (rule collapse_blank_lines_no_triple)
next
  show "\<not> sublist (lit ''\<newline>\<newline>\<newline>'') (clean_markdown_text x)"
    by (rule clean_markdown_text_props)
qed

theorem blank_line_loop_total_witness:
  "sublist (lit ''\<newline>\<newline>\<newline>'') (lit ''a\<newline>\<newline>\<newline>\<newline>b'') \<and>
   length (str_replace (lit ''\<newline>\<newline>\<newline>'') (lit ''\<newline>\<newline>'') (lit ''a\<newline>\<newline>\<newline>\<newline>b'')) <
     length (lit ''a\<newline>\<newline>\<newline>\<newline>b'') \<and>
   collapse_blank_lines (lit ''a\<newline>\<newline>\<newline>\<newline>b'') = lit ''a\<newline>\<newline>b''"
proof -
  have a: "sublist (lit ''\<newline>\<newline>\<newline>'') (lit ''a\<newline>\<newline>\<newline>\<newline>b'')"
    by (simp add: sublist_Cons_right)
  have r1: "str_replace (lit ''\<newline>\<newline>\<newline>'') (lit ''\<newline>\<newline>'') (lit ''a\<newline>\<newline>\<newline>\<newline>b'') = lit ''a\<newline>\<newline>\<newline>b''"
    by simp
  have r2: "str_replace (lit ''\<newline>\<newline>\<newline>'') (lit ''\<newline>\<newline>'') (lit ''a\<newline>\<newline>\<newline>b'') = lit ''a\<newline>\<newline>b''"
    by simp
  have b: "sublist (lit ''\<newline>\<newline>\<newline>'') (lit ''a\<newline>\<newline>\<newline>b'')"
    by (simp add: sublist_Cons_right)
  have c: "\<not> sublist (lit ''\<newline>\<newline>\<newline>'') (lit ''a\<newline>\<newline>b'')"
    by (simp add: sublist_Cons_right)
  have "collapse_blank_lines (lit ''a\<newline>\<newline>\<newline>\<newline>b'') = collapse_blank_lines (lit ''a\<newline>\<newline>\<newline>b'')"
    using blank_line_loop_total[of "lit ''a\<newline>\<newline>\<newline>\<newline>b''"] a by (simp only: r1 if_True)
  also have "\<dots> = collapse_blank_lines (lit ''a\<newline>\<newline>b'')"
    using blank_line_loop_total[of "lit ''a\<newline>\<newline>\<newline>b''"] b by (simp only: r2 if_True)
  also have "\<dots> = lit ''a\<newline>\<newline>b''"
    using blank_line_loop_total[of "lit ''a\<newline>\<newline>b''"] c by (simp only: if_False)
  finally have d: "collapse_blank_lines (lit ''a\<newline>\<newline>\<newline>\<newline>b'') = lit ''a\<newline>\<newline>b''" .
  from blank_line_loop_total[of "lit ''a\<newline>\<newline>\<newline>\<newline>b''"] a
  have "length (str_replace (lit ''\<newline>\<newline>\<newline>'') (lit ''\<newline>\<newline>'') (lit ''a\<newline>\<newline>\<newline>\<newline>b'')) <
     length (lit ''a\<newline>\<newline>\<newline>\<newline>b'')" by blast
  with a d show ?thesis by (intro conjI)
qed

section \<open>Normalisation of absent input\<close>

text \<open>
  C10. \<^verbatim>\<open>clean_text\<close> returns the empty string for \<^verbatim>\<open>None\<close> and for the empty
  string, on the employee-relations and performance-management pages; it never fails on
  them, and neither does the talent-acquisition variant.
\<close>

theorem clean_text_absent:
  "clean_text None = [] \<and> clean_text (Some []) = [] \<and>
   clean_markdown_text None = [] \<and> clean_markdown_text (Some []) = []"
  by (simp add: clean_text_def clean_markdown_text_def)

end
